theory Spec2Isabelle
  imports Main "HOL-Library.Multiset"
begin

section \<open>The AST model of \<^verbatim>\<open>ast.go\<close>\<close>

text \<open>
  Pointers to AST nodes whose contents no operation below reads (expressions, statements,
  identifier nodes, function declarations) are kept as bare addresses. A nil pointer or a
  nil interface value is \<open>None\<close>.
\<close>

type_synonym addr = nat

datatype ObjectType = OBJECT_VAR | OBJECT_TYPE | OBJECT_PACKAGE | OBJECT_LABEL

datatype Kind =
    KIND_SIMPLE | KIND_ARRAY | KIND_SLICE | KIND_MAP | KIND_POINTER
  | KIND_CUSTOM | KIND_STRUCT | KIND_TUPLE | KIND_FUNC | KIND_UNKNOWN

text \<open>
  \<^verbatim>\<open>SimpleTypeID\<close> is a Go \<^verbatim>\<open>int\<close>; the three registered ids are 1, 2 and 3 (\<^verbatim>\<open>iota + 1\<close>).
\<close>

type_synonym SimpleTypeID = int

definition SIMPLE_TYPE_INT :: SimpleTypeID where "SIMPLE_TYPE_INT = 1"
definition SIMPLE_TYPE_STRING :: SimpleTypeID where "SIMPLE_TYPE_STRING = 2"
definition SIMPLE_TYPE_BOOL :: SimpleTypeID where "SIMPLE_TYPE_BOOL = 3"

text \<open>
  The struct \<^verbatim>\<open>CustomType\<close>. Its \<^verbatim>\<open>Decl\<close> field is a pointer to a \<^verbatim>\<open>TypeDecl\<close>; alias chains
  are followed through it and nothing in the code keeps them from looping, so it is an
  address into a store of declarations rather than a nested value.
\<close>

datatype CustomType = CustomType (ct_Name: string) (ct_Package: string) (Decl: "addr option")

text \<open>
  The implementations of the interface \<^verbatim>\<open>Type\<close>. The members of a \<^verbatim>\<open>StructType\<close> are a Go
  map; they are listed here as its key/value pairs (each key once), followed by \<^verbatim>\<open>Keys\<close>,
  the addresses of the \<^verbatim>\<open>Methods\<close> and the \<^verbatim>\<open>Name\<close>. Component types are taken to be
  present (not nil interfaces).
\<close>

datatype Type =
    SimpleType SimpleTypeID
  | ArrayType int Type
  | SliceType Type
  | MapType Type Type
  | FuncType "Type list" "Type list"
  | PointerType Type
  | TupleType "Type list"
  | StructType "(string \<times> Type) list" "string list" "addr list" string
  | Custom CustomType
  | UnknownType

text \<open>The method \<^verbatim>\<open>Kind\<close> (the datatype already has that name).\<close>

fun Kind_of :: "Type \<Rightarrow> Kind" where
  "Kind_of (SimpleType i) = KIND_SIMPLE"
| "Kind_of (ArrayType n t) = KIND_ARRAY"
| "Kind_of (SliceType t) = KIND_SLICE"
| "Kind_of (MapType k v) = KIND_MAP"
| "Kind_of (FuncType as rs) = KIND_FUNC"
| "Kind_of (PointerType t) = KIND_POINTER"
| "Kind_of (TupleType ms) = KIND_TUPLE"
| "Kind_of (StructType ms ks fs n) = KIND_STRUCT"
| "Kind_of (Custom c) = KIND_CUSTOM"
| "Kind_of UnknownType = KIND_UNKNOWN"

text \<open>
  \<^verbatim>\<open>Known\<close>, one equation per implementation. The loops of \<^verbatim>\<open>FuncType\<close>, \<^verbatim>\<open>TupleType\<close> and
  \<^verbatim>\<open>StructType\<close> return false at the first member that is not known and true otherwise.
  \<^verbatim>\<open>CustomType.Known\<close> returns true without looking at the declaration.
\<close>

fun Known :: "Type \<Rightarrow> bool" where
  "Known (SimpleType i) = True"
| "Known (ArrayType n t) = Known t"
| "Known (SliceType t) = Known t"
| "Known (MapType k v) = (Known k \<and> Known v)"
| "Known (FuncType as rs) = (list_all Known as \<and> list_all Known rs)"
| "Known (PointerType t) = Known t"
| "Known (TupleType ms) = list_all Known ms"
| "Known (StructType ms ks fs n) = list_all (\<lambda>m. Known (snd m)) ms"
| "Known (Custom c) = True"
| "Known UnknownType = False"

text \<open>
  \<^verbatim>\<open>TypeDecl\<close>: its name and the aliased type, nil for a declaration that is not an alias.
  The embedded \<^verbatim>\<open>stmt\<close> (position and label) is read by none of the operations below.
\<close>

record TypeDecl =
  td_name :: string
  AliasedType :: "Type option"

text \<open>
  The store of type declarations that \<^verbatim>\<open>Decl\<close> pointers point into. A pointer that is not
  nil always points at a declaration, so the store is total.
\<close>

type_synonym heap = "addr \<Rightarrow> TypeDecl"

text \<open>
  \<^verbatim>\<open>simpleTypeAsStr\<close> and the table \<^verbatim>\<open>simpleTypeStrToID\<close> that \<^verbatim>\<open>initSimpleTypeIDs\<close> fills from
  it. Reading a Go map at a key it does not hold gives the zero value, here the id 0.
\<close>

definition simpleTypeAsStr :: "(SimpleTypeID \<times> string) list" where
  "simpleTypeAsStr =
     [(SIMPLE_TYPE_INT, ''int''), (SIMPLE_TYPE_STRING, ''string''), (SIMPLE_TYPE_BOOL, ''bool'')]"

definition initSimpleTypeIDs :: "string \<rightharpoonup> SimpleTypeID" where
  "initSimpleTypeIDs = fold (\<lambda>(k, v) m. m(v \<mapsto> k)) simpleTypeAsStr Map.empty"

definition simpleTypeStrToID :: "string \<Rightarrow> SimpleTypeID" where
  "simpleTypeStrToID s = (case initSimpleTypeIDs s of None \<Rightarrow> 0 | Some k \<Rightarrow> k)"

text \<open>
  \<^verbatim>\<open>TypeDecl.Type\<close>. The receiver \<^verbatim>\<open>o\<close> is a pointer: \<open>a\<close> is its address and \<open>d\<close> the
  declaration found there. The \<^verbatim>\<open>CustomType\<close> literal leaves \<^verbatim>\<open>Package\<close> at its zero value.
\<close>

definition TypeDecl_Type :: "addr \<Rightarrow> TypeDecl \<Rightarrow> Type" where
  "TypeDecl_Type a d =
     (if AliasedType d = None then SimpleType (simpleTypeStrToID (td_name d))
      else Custom (CustomType (td_name d) [] (Some a)))"

text \<open>The builtin type table, as \<^verbatim>\<open>initVarDecls\<close> leaves it, and its lookup.\<close>

definition builtinTypeNames :: "string list" where
  "builtinTypeNames =
     [''bool'', ''byte'', ''complex128'', ''complex64'', ''error'', ''float32'',
      ''float64'', ''int'', ''int16'', ''int32'', ''int64'', ''int8'', ''rune'',
      ''string'', ''uint'', ''uint16'', ''uint32'', ''uint64'', ''uint8'', ''uintptr'']"

definition initVarDecls :: "string \<rightharpoonup> TypeDecl" where
  "initVarDecls =
     fold (\<lambda>name m. m(name \<mapsto> \<lparr>td_name = name, AliasedType = None\<rparr>)) builtinTypeNames Map.empty"

definition GetBuiltinType :: "string \<Rightarrow> TypeDecl option" where
  "GetBuiltinType name = initVarDecls name"

subsection \<open>Objects\<close>

record Variable =
  var_name :: string
  var_Type :: "Type option"
  Init :: "addr option"

record LabelStmt =
  label_name :: string
  Branchable :: "addr option"

record Package =
  pkg_name :: string

text \<open>
  The four implementations of the interface \<^verbatim>\<open>Object\<close>. A scope holds pointers to them; the
  scope operations read only the name and the object type, so the model holds the values.
\<close>

datatype Object =
    VariableObj Variable
  | LabelObj LabelStmt
  | TypeDeclObj TypeDecl
  | PackageObj Package

fun Name :: "Object \<Rightarrow> string" where
  "Name (VariableObj v) = var_name v"
| "Name (LabelObj l) = label_name l"
| "Name (TypeDeclObj d) = td_name d"
| "Name (PackageObj p) = pkg_name p"

fun ObjectType_of :: "Object \<Rightarrow> ObjectType" where
  "ObjectType_of (VariableObj v) = OBJECT_VAR"
| "ObjectType_of (LabelObj l) = OBJECT_LABEL"
| "ObjectType_of (TypeDeclObj d) = OBJECT_TYPE"
| "ObjectType_of (PackageObj p) = OBJECT_PACKAGE"

subsection \<open>Failures\<close>

text \<open>Run-time panics, and the error values the operations return.\<close>

datatype panic = NilDereference | NilMapAssignment | IndexOutOfRange | SliceBounds | TypeAssertion

datatype err =
    LabelRedeclared string
  | TypeMismatch Type Type
  | UnresolvedInference
  | DependencyCycle "string list"

subsection \<open>Code blocks\<close>

text \<open>
  \<^verbatim>\<open>Labels\<close> is a Go map and may be nil (the zero value of the struct): reading a nil map
  finds nothing, assigning to it panics.
\<close>

record CodeBlock =
  Statements :: "addr list"
  Labels :: "(string \<rightharpoonup> LabelStmt) option"

definition AddLabel :: "CodeBlock \<Rightarrow> LabelStmt \<Rightarrow> panic + (err option \<times> CodeBlock)" where
  "AddLabel cb l =
     (case Labels cb of
        None \<Rightarrow> Inl NilMapAssignment
      | Some m \<Rightarrow>
          (if m (label_name l) \<noteq> None then Inr (Some (LabelRedeclared (label_name l)), cb)
           else Inr (None, cb\<lparr>Labels := Some (m(label_name l \<mapsto> l))\<rparr>)))"

subsection \<open>Root of an alias chain\<close>

text \<open>
  The loop of \<^verbatim>\<open>RootType\<close>. \<^verbatim>\<open>current\<close> is an interface value; calling \<^verbatim>\<open>Kind\<close> on nil and
  reading \<^verbatim>\<open>Decl\<close> through a nil pointer panic. The loop has no bound: on a chain that
  comes back to itself it does not return, which is the value \<open>None\<close>.
\<close>

partial_function (option) RootType_loop :: "heap \<Rightarrow> Type option \<Rightarrow> (panic + Type) option" where
  "RootType_loop h current =
     (case current of
        None \<Rightarrow> Some (Inl NilDereference)
      | Some t \<Rightarrow>
          (if Kind_of t = KIND_CUSTOM then
             (case t of
                Custom c \<Rightarrow>
                  (case Decl c of
                     None \<Rightarrow> Some (Inl NilDereference)
                   | Some a \<Rightarrow> RootType_loop h (AliasedType (h a)))
              | _ \<Rightarrow> Some (Inl TypeAssertion))
           else Some (Inr t)))"

definition RootType :: "heap \<Rightarrow> CustomType \<Rightarrow> (panic + Type) option" where
  "RootType h t =
     (case Decl t of
        None \<Rightarrow> Some (Inl NilDereference)
      | Some a \<Rightarrow> RootType_loop h (AliasedType (h a)))"

text \<open>
  A chain of named aliases that ends: \<open>aliasChain h t r\<close> holds when following
  \<^verbatim>\<open>Decl.AliasedType\<close> from \<open>t\<close> through Custom types reaches, after finitely many steps, the
  type \<open>r\<close> that is not Custom.
\<close>

inductive aliasChain :: "heap \<Rightarrow> Type \<Rightarrow> Type \<Rightarrow> bool" for h :: heap where
  chain_root: "Kind_of r \<noteq> KIND_CUSTOM \<Longrightarrow> aliasChain h r r"
| chain_step: "Decl c = Some a \<Longrightarrow> AliasedType (h a) = Some t \<Longrightarrow> aliasChain h t r
               \<Longrightarrow> aliasChain h (Custom c) r"

section \<open>The scope stack\<close>

text \<open>
  \<^verbatim>\<open>IdentStack\<close> is a slice of maps, the innermost scope last. Indexing or reslicing an
  empty stack at \<^verbatim>\<open>len - 1\<close> panics.
\<close>

type_synonym IdentStack = "(string \<rightharpoonup> Object) list"

definition pushScope :: "IdentStack \<Rightarrow> IdentStack" where
  "pushScope is = is @ [Map.empty]"

definition popScope :: "IdentStack \<Rightarrow> panic + IdentStack" where
  "popScope is = (if is = [] then Inl SliceBounds else Inr (take (length is - 1) is))"

definition empty_stack :: "IdentStack \<Rightarrow> bool" where
  "empty_stack is = (length is = 0)"

definition addObject :: "Object \<Rightarrow> IdentStack \<Rightarrow> panic + IdentStack" where
  "addObject v is =
     (if is = [] then Inl IndexOutOfRange
      else Inr (is[length is - 1 := (is ! (length is - 1))(Name v \<mapsto> v)]))"

text \<open>
  The loop \<^verbatim>\<open>for i := len(*is) - 1; i >= 0; i--\<close> of \<^verbatim>\<open>findObject\<close>; the argument counts the
  scopes still to visit, so the scope visited is the one at index \<open>i\<close> when it is \<open>Suc i\<close>.
\<close>

fun findObject_loop :: "IdentStack \<Rightarrow> string \<Rightarrow> nat \<Rightarrow> Object option" where
  "findObject_loop is name 0 = None"
| "findObject_loop is name (Suc i) =
     (case (is ! i) name of
        Some v \<Rightarrow> Some v
      | None \<Rightarrow> findObject_loop is name i)"

definition findObject :: "IdentStack \<Rightarrow> string \<Rightarrow> Object option" where
  "findObject is name =
     (case GetBuiltinType name of
        Some decl \<Rightarrow> Some (TypeDeclObj decl)
      | None \<Rightarrow> findObject_loop is name (length is))"

text \<open>
  The same loop in \<^verbatim>\<open>findTypeDecl\<close>, which passes over a binding whose object type is not
  \<^verbatim>\<open>OBJECT_TYPE\<close>. The type assertion \<^verbatim>\<open>v.(*TypeDecl)\<close> panics on any other implementation.
\<close>

fun findTypeDecl_loop :: "IdentStack \<Rightarrow> string \<Rightarrow> nat \<Rightarrow> panic + TypeDecl option" where
  "findTypeDecl_loop is name 0 = Inr None"
| "findTypeDecl_loop is name (Suc i) =
     (case (is ! i) name of
        Some v \<Rightarrow>
          (if ObjectType_of v = OBJECT_TYPE then
             (case v of TypeDeclObj d \<Rightarrow> Inr (Some d) | _ \<Rightarrow> Inl TypeAssertion)
           else findTypeDecl_loop is name i)
      | None \<Rightarrow> findTypeDecl_loop is name i)"

definition findTypeDecl :: "IdentStack \<Rightarrow> string \<Rightarrow> panic + TypeDecl option" where
  "findTypeDecl is name =
     (case GetBuiltinType name of
        Some decl \<Rightarrow> Inr (Some decl)
      | None \<Rightarrow> findTypeDecl_loop is name (length is))"

section \<open>Type negotiation\<close>

text \<open>
  Modelled from the spec: \<^verbatim>\<open>Negotiate\<close> is declared in the interface \<^verbatim>\<open>Type\<close> and no
  implementation of it is among the sources. The spec's policy: when one side is unknown
  and the other known, the known type wins; two known types must be structurally identical,
  otherwise negotiation fails with a type mismatch naming both; two unknown sides fail.
  A side counts as known when \<open>Known\<close> holds of it. The receiver is the first argument.
\<close>

definition Negotiate :: "Type \<Rightarrow> Type \<Rightarrow> err + Type" where
  "Negotiate t other =
     (if Known t \<and> Known other then
        (if t = other then Inr t else Inl (TypeMismatch t other))
      else if Known t then Inr t
      else if Known other then Inr other
      else Inl UnresolvedInference)"

section \<open>Top-level statements and their ordering\<close>

text \<open>
  Modelled from the spec: \<^verbatim>\<open>TopLevelStmt\<close>, \<^verbatim>\<open>loadDeps\<close> and \<^verbatim>\<open>topoSort\<close> are used by the test
  \<^verbatim>\<open>TestStmtsSort\<close> and their code is not among the sources. A \<^verbatim>\<open>TopLevelStmt\<close> wraps one
  statement (its address), the names the statement declares (\<^verbatim>\<open>Decls()\<close>) and the map
  \<^verbatim>\<open>unboundIdents\<close> from each free identifier name to the identifier node that first used
  it (nil in the test).
\<close>

record TopLevelStmt =
  Stmt :: addr
  Decls :: "string list"
  unboundIdents :: "string \<rightharpoonup> addr option"

text \<open>
  Modelled from the spec: an unbound identifier is a name referenced by a statement that
  is not declared by that same statement, so declaring and using a name within one
  statement never makes the statement depend on itself.
\<close>

definition unbound :: "TopLevelStmt \<Rightarrow> string \<Rightarrow> bool" where
  "unbound s n = (unboundIdents s n \<noteq> None \<and> n \<notin> set (Decls s))"

text \<open>
  Modelled from the spec, the edge rule: statement A depends on statement B iff some name
  in A's unbound set appears in B's declared set.
\<close>

definition dependsOn :: "TopLevelStmt \<Rightarrow> TopLevelStmt \<Rightarrow> bool" where
  "dependsOn a b = list_ex (unbound a) (Decls b)"

text \<open>
  Modelled from the spec: the Kahn-style sort. Statements are identified by their position
  in the input. A statement is available when all of its dependencies are already emitted;
  among the available ones the first in input order is taken. When statements remain and
  none is available the sort fails with a dependency-cycle error listing the declared names
  of the remaining statements, and returns no order.
\<close>

definition available :: "TopLevelStmt list \<Rightarrow> nat list \<Rightarrow> nat \<Rightarrow> bool" where
  "available inp out i =
     list_all (\<lambda>j. dependsOn (inp ! i) (inp ! j) \<longrightarrow> j \<in> set out) [0..<length inp]"

function topoLoop :: "TopLevelStmt list \<Rightarrow> nat list \<Rightarrow> nat list \<Rightarrow> err + nat list" where
  "topoLoop inp out rem =
     (if rem = [] then Inr out
      else (case find (available inp out) rem of
              None \<Rightarrow> Inl (DependencyCycle (concat (map (\<lambda>i. Decls (inp ! i)) rem)))
            | Some i \<Rightarrow> topoLoop inp (out @ [i]) (remove1 i rem)))"
  by pat_completeness auto
termination
proof (relation "measure (\<lambda>(inp, out, rem). length rem)")
  show "wf (measure (\<lambda>(inp, out, rem). length rem))" by simp
next
  fix inp :: "TopLevelStmt list" and out rem :: "nat list" and i :: nat
  assume "rem \<noteq> []" and "find (available inp out) rem = Some i"
  then have "i \<in> set rem" by (auto simp: find_Some_iff)
  then have "length (remove1 i rem) < length rem"
    using length_pos_if_in_set [of i rem] by (simp add: length_remove1)
  then show "((inp, out @ [i], remove1 i rem), (inp, out, rem))
             \<in> measure (\<lambda>(inp, out, rem). length rem)" by simp
qed

definition topoOrder :: "TopLevelStmt list \<Rightarrow> err + nat list" where
  "topoOrder inp = topoLoop inp [] [0..<length inp]"

definition topoSort :: "TopLevelStmt list \<Rightarrow> err + TopLevelStmt list" where
  "topoSort inp =
     (case topoOrder inp of
        Inl e \<Rightarrow> Inl e
      | Inr ord \<Rightarrow> Inr (map (\<lambda>i. inp ! i) ord))"

text \<open>
  The declare/depend edges of an input, between positions: \<open>(s, d)\<close> is an edge when the
  statement at \<open>s\<close> depends on the statement at \<open>d\<close>.
\<close>

definition depEdges :: "TopLevelStmt list \<Rightarrow> (nat \<times> nat) set" where
  "depEdges inp =
     {(s, d). s < length inp \<and> d < length inp \<and> dependsOn (inp ! s) (inp ! d)}"

text \<open>Position of the first occurrence of \<open>x\<close>, and "x occurs before y" in a list.\<close>

fun posOf :: "'a \<Rightarrow> 'a list \<Rightarrow> nat" where
  "posOf x [] = 0"
| "posOf x (y # ys) = (if x = y then 0 else Suc (posOf x ys))"

definition occursBefore :: "'a \<Rightarrow> 'a \<Rightarrow> 'a list \<Rightarrow> bool" where
  "occursBefore x y xs = (x \<in> set xs \<and> y \<in> set xs \<and> posOf x xs < posOf y xs)"

section \<open>Occurrences of Unknown\<close>

text \<open>
  "An Unknown appears in the structure of the type", read without looking through named
  types: the members of arrays, slices, maps, pointers, tuples, structs and function
  signatures are searched, a Custom type is not opened.
\<close>

fun hasUnknown :: "Type \<Rightarrow> bool" where
  "hasUnknown (SimpleType i) = False"
| "hasUnknown (ArrayType n t) = hasUnknown t"
| "hasUnknown (SliceType t) = hasUnknown t"
| "hasUnknown (MapType k v) = (hasUnknown k \<or> hasUnknown v)"
| "hasUnknown (FuncType as rs) = (list_ex hasUnknown as \<or> list_ex hasUnknown rs)"
| "hasUnknown (PointerType t) = hasUnknown t"
| "hasUnknown (TupleType ms) = list_ex hasUnknown ms"
| "hasUnknown (StructType ms ks fs n) = list_ex (\<lambda>m. hasUnknown (snd m)) ms"
| "hasUnknown (Custom c) = False"
| "hasUnknown UnknownType = True"

text \<open>
  The same, read as the spec words it: also through the aliased type of the declaration a
  Custom type points to.
\<close>

inductive hasUnknownThroughAliases :: "heap \<Rightarrow> Type \<Rightarrow> bool" for h :: heap where
  unk_here: "hasUnknownThroughAliases h UnknownType"
| unk_array: "hasUnknownThroughAliases h t \<Longrightarrow> hasUnknownThroughAliases h (ArrayType n t)"
| unk_slice: "hasUnknownThroughAliases h t \<Longrightarrow> hasUnknownThroughAliases h (SliceType t)"
| unk_map_key: "hasUnknownThroughAliases h k \<Longrightarrow> hasUnknownThroughAliases h (MapType k v)"
| unk_map_value: "hasUnknownThroughAliases h v \<Longrightarrow> hasUnknownThroughAliases h (MapType k v)"
| unk_func_arg: "t \<in> set as \<Longrightarrow> hasUnknownThroughAliases h t
                 \<Longrightarrow> hasUnknownThroughAliases h (FuncType as rs)"
| unk_func_result: "t \<in> set rs \<Longrightarrow> hasUnknownThroughAliases h t
                    \<Longrightarrow> hasUnknownThroughAliases h (FuncType as rs)"
| unk_pointer: "hasUnknownThroughAliases h t \<Longrightarrow> hasUnknownThroughAliases h (PointerType t)"
| unk_tuple: "t \<in> set ms \<Longrightarrow> hasUnknownThroughAliases h t
              \<Longrightarrow> hasUnknownThroughAliases h (TupleType ms)"
| unk_struct: "(k, t) \<in> set ms \<Longrightarrow> hasUnknownThroughAliases h t
               \<Longrightarrow> hasUnknownThroughAliases h (StructType ms ks fs n)"
| unk_alias: "Decl c = Some a \<Longrightarrow> AliasedType (h a) = Some t \<Longrightarrow> hasUnknownThroughAliases h t
              \<Longrightarrow> hasUnknownThroughAliases h (Custom c)"

section \<open>Example inputs\<close>

text \<open>
  A store with three declarations: \<^verbatim>\<open>A\<close> at address 0 is an alias of \<^verbatim>\<open>B\<close>, \<^verbatim>\<open>B\<close> at address 1
  is an alias of the simple type \<^verbatim>\<open>int\<close>, and every other address holds \<^verbatim>\<open>U\<close>, an alias of
  a type still to be inferred.
\<close>

definition exampleDecls :: heap where
  "exampleDecls a =
     (if a = 0 then \<lparr>td_name = ''A'', AliasedType = Some (Custom (CustomType ''B'' [] (Some 1)))\<rparr>
      else if a = 1 then \<lparr>td_name = ''B'', AliasedType = Some (SimpleType SIMPLE_TYPE_INT)\<rparr>
      else \<lparr>td_name = ''U'', AliasedType = Some UnknownType\<rparr>)"

text \<open>A store in which every declaration \<^verbatim>\<open>L\<close> is an alias of itself.\<close>

definition loopDecls :: heap where
  "loopDecls a = \<lparr>td_name = ''L'', AliasedType = Some (Custom (CustomType ''L'' [] (Some a)))\<rparr>"

definition typeA :: CustomType where "typeA = CustomType ''A'' [] (Some 0)"
definition typeU :: CustomType where "typeU = CustomType ''U'' [] (Some 2)"

definition varX :: Object where
  "varX = VariableObj \<lparr>var_name = ''x'', var_Type = Some (SimpleType SIMPLE_TYPE_INT), Init = None\<rparr>"

definition innerX :: Object where
  "innerX = VariableObj \<lparr>var_name = ''x'', var_Type = Some (SimpleType SIMPLE_TYPE_BOOL), Init = None\<rparr>"

definition declX :: TypeDecl where
  "declX = \<lparr>td_name = ''x'', AliasedType = Some (SimpleType SIMPLE_TYPE_STRING)\<rparr>"

definition varInt :: Object where
  "varInt = VariableObj \<lparr>var_name = ''int'', var_Type = None, Init = None\<rparr>"

definition innerInt :: Object where
  "innerInt = VariableObj \<lparr>var_name = ''int'', var_Type = Some (SimpleType SIMPLE_TYPE_BOOL), Init = None\<rparr>"

definition declInt :: TypeDecl where
  "declInt = \<lparr>td_name = ''int'', AliasedType = Some (SimpleType SIMPLE_TYPE_STRING)\<rparr>"

definition builtinInt :: TypeDecl where
  "builtinInt = \<lparr>td_name = ''int'', AliasedType = None\<rparr>"

text \<open>Stacks of one and of two scopes binding \<^verbatim>\<open>x\<close>, and the same with the name \<^verbatim>\<open>int\<close>.\<close>

definition stackX :: IdentStack where
  "stackX = [[''x'' \<mapsto> varX]]"

definition stackDeclVarX :: IdentStack where
  "stackDeclVarX = [[''x'' \<mapsto> TypeDeclObj declX], [''x'' \<mapsto> innerX]]"

definition stackInt :: IdentStack where
  "stackInt = [[''int'' \<mapsto> varInt]]"

definition stackDeclVarInt :: IdentStack where
  "stackDeclVarInt = [[''int'' \<mapsto> TypeDeclObj declInt], [''int'' \<mapsto> innerInt]]"

definition stackXInner :: IdentStack where
  "stackXInner = [[''x'' \<mapsto> varX], [''x'' \<mapsto> innerX]]"

definition stackIntInner :: IdentStack where
  "stackIntInner = [[''int'' \<mapsto> varInt], [''int'' \<mapsto> innerInt]]"

definition labelL :: LabelStmt where
  "labelL = \<lparr>label_name = ''L'', Branchable = None\<rparr>"

definition labelM :: LabelStmt where
  "labelM = \<lparr>label_name = ''M'', Branchable = Some 7\<rparr>"

definition blockL :: CodeBlock where
  "blockL = \<lparr>Statements = [3, 4], Labels = Some [''L'' \<mapsto> labelL]\<rparr>"

text \<open>
  The first and the fifth case of \<^verbatim>\<open>TestStmtsSort\<close>: a chain \<^verbatim>\<open>a\<close> needs \<^verbatim>\<open>b\<close> needs \<^verbatim>\<open>c\<close>,
  and the same closed into a cycle by \<^verbatim>\<open>c\<close> needing \<^verbatim>\<open>a\<close>.
\<close>

definition testNode :: "addr \<Rightarrow> string list \<Rightarrow> string list \<Rightarrow> TopLevelStmt" where
  "testNode p ds deps =
     \<lparr>Stmt = p, Decls = ds, unboundIdents = fold (\<lambda>dep m. m(dep \<mapsto> None)) deps Map.empty\<rparr>"

definition chainStmts :: "TopLevelStmt list" where
  "chainStmts =
     [testNode 1 [''a''] [''b''], testNode 2 [''b''] [''c''], testNode 3 [''c''] []]"

definition cycleStmts :: "TopLevelStmt list" where
  "cycleStmts =
     [testNode 1 [''a''] [''b''], testNode 2 [''b''] [''c''], testNode 3 [''c''] [''a'']]"

text \<open>
  The other cases of the test (the second, third, fourth and sixth), and a statement that
  uses the name it declares.
\<close>

definition forwardStmts :: "TopLevelStmt list" where
  "forwardStmts =
     [testNode 1 [''a''] [], testNode 2 [''b''] [''a''], testNode 3 [''c''] [''b'']]"

definition fanStmts :: "TopLevelStmt list" where
  "fanStmts =
     [testNode 1 [''a''] [], testNode 2 [''b''] [''a''], testNode 3 [''c''] [''a'']]"

definition twoNameStmts :: "TopLevelStmt list" where
  "twoNameStmts =
     [testNode 1 [''a'', ''aa''] [], testNode 2 [''b''] [''a''], testNode 3 [''c''] [''aa'']]"

definition twoNameCycleStmts :: "TopLevelStmt list" where
  "twoNameCycleStmts =
     [testNode 1 [''a'', ''aa''] [''b''], testNode 2 [''b''] [''a''], testNode 3 [''c''] [''aa'']]"

definition selfStmts :: "TopLevelStmt list" where
  "selfStmts = [testNode 1 [''main''] [''main'']]"

section \<open>Properties of the type algebra\<close>

subsection \<open>Known\<close>

text \<open>
  The spec reads "known" through named aliases as well. \<^verbatim>\<open>CustomType.Known\<close> returns true
  whatever the declaration holds: the Custom type \<^verbatim>\<open>U\<close> of the example store is an alias of
  an Unknown and is Known all the same.
\<close>

theorem Known_alias_counterexample:
  "hasUnknownThroughAliases exampleDecls (Custom typeU) \<and> Known (Custom typeU)"
proof -
  have "AliasedType (exampleDecls 2) = Some UnknownType"
    by (simp add: exampleDecls_def)
  moreover have "Decl typeU = Some 2" by (simp add: typeU_def)
  ultimately have "hasUnknownThroughAliases exampleDecls (Custom typeU)"
    using unk_alias [of typeU 2 exampleDecls UnknownType] unk_here by blast
  then show ?thesis by simp
qed

text \<open>
  Claim C2, as the code has it: for every Type value, \<^verbatim>\<open>Known()\<close> returns true if and only if
  no Unknown type appears in the type's structure, recursively through the members of
  composite types (array, slice, map, pointer, tuple, struct, func); a Custom type is Known
  whatever its declaration aliases.
\<close>

theorem Known_iff_no_Unknown: "Known t \<longleftrightarrow> \<not> hasUnknown t"
  by (induction t) (auto simp: list_all_iff list_ex_iff)

theorem Known_iff_no_Unknown_witness:
  "Known (MapType (SimpleType SIMPLE_TYPE_STRING) (TupleType [Custom typeU, SimpleType SIMPLE_TYPE_INT]))
   \<and> \<not> hasUnknown (MapType (SimpleType SIMPLE_TYPE_STRING) (TupleType [Custom typeU, SimpleType SIMPLE_TYPE_INT]))
   \<and> \<not> Known (FuncType [SliceType UnknownType] [])
   \<and> hasUnknown (FuncType [SliceType UnknownType] [])"
  using Known_iff_no_Unknown [of "MapType (SimpleType SIMPLE_TYPE_STRING) (TupleType [Custom typeU, SimpleType SIMPLE_TYPE_INT])"]
    Known_iff_no_Unknown [of "FuncType [SliceType UnknownType] []"]
  by simp

subsection \<open>Type declarations and builtins\<close>

lemma GetBuiltinType_eq:
  "GetBuiltinType n =
     (if n \<in> set builtinTypeNames then Some \<lparr>td_name = n, AliasedType = None\<rparr> else None)"
  by (simp add: GetBuiltinType_def initVarDecls_def builtinTypeNames_def)

lemma GetBuiltinType_int: "GetBuiltinType ''int'' = Some builtinInt"
  by (simp add: GetBuiltinType_eq builtinTypeNames_def builtinInt_def)

lemma GetBuiltinType_x: "GetBuiltinType ''x'' = None"
  by (simp add: GetBuiltinType_eq builtinTypeNames_def)

lemma simpleTypeStrToID_int: "simpleTypeStrToID ''int'' = SIMPLE_TYPE_INT"
  by (simp add: simpleTypeStrToID_def initSimpleTypeIDs_def simpleTypeAsStr_def)

text \<open>
  Claim C9: for every TypeDecl, \<^verbatim>\<open>Type()\<close> returns a SimpleType carrying the id that
  \<^verbatim>\<open>simpleTypeStrToID\<close> holds for the declaration's name when \<^verbatim>\<open>AliasedType\<close> is nil, and
  otherwise a CustomType whose \<^verbatim>\<open>Name\<close> is the declaration's name and whose \<^verbatim>\<open>Decl\<close> is the
  receiver itself; every builtin type declaration has a nil \<^verbatim>\<open>AliasedType\<close> and so denotes
  a Simple type, never a Custom alias.
\<close>

theorem TypeDecl_Type_spec:
  "(AliasedType d = None \<longrightarrow> TypeDecl_Type a d = SimpleType (simpleTypeStrToID (td_name d)))
   \<and> (AliasedType d \<noteq> None \<longrightarrow>
        (\<exists>c. TypeDecl_Type a d = Custom c \<and> ct_Name c = td_name d \<and> Decl c = Some a))
   \<and> (\<forall>n b. GetBuiltinType n = Some b \<longrightarrow>
        AliasedType b = None \<and> TypeDecl_Type a b = SimpleType (simpleTypeStrToID n)
        \<and> Kind_of (TypeDecl_Type a b) = KIND_SIMPLE)"
  by (auto simp: TypeDecl_Type_def GetBuiltinType_eq split: if_splits)

theorem TypeDecl_Type_spec_witness:
  "AliasedType builtinInt = None
   \<and> GetBuiltinType ''int'' = Some builtinInt
   \<and> TypeDecl_Type 5 builtinInt = SimpleType SIMPLE_TYPE_INT
   \<and> Kind_of (TypeDecl_Type 5 builtinInt) = KIND_SIMPLE
   \<and> AliasedType (exampleDecls 0) \<noteq> None
   \<and> TypeDecl_Type 0 (exampleDecls 0) = Custom typeA"
  using TypeDecl_Type_spec [of builtinInt 5] TypeDecl_Type_spec [of "exampleDecls 0" 0]
    GetBuiltinType_int simpleTypeStrToID_int
  by (auto simp: builtinInt_def exampleDecls_def typeA_def TypeDecl_Type_def)

subsection \<open>Negotiation\<close>

text \<open>
  Claim C8: for every Known type T, \<^verbatim>\<open>Negotiate(Unknown, T)\<close> and \<^verbatim>\<open>Negotiate(T, Unknown)\<close> both
  succeed without error and return T.
\<close>

theorem Negotiate_Unknown:
  "Known T \<Longrightarrow> Negotiate UnknownType T = Inr T \<and> Negotiate T UnknownType = Inr T"
  by (simp add: Negotiate_def)

theorem Negotiate_Unknown_witness:
  "Known (SliceType (SimpleType SIMPLE_TYPE_INT))
   \<and> Negotiate UnknownType (SliceType (SimpleType SIMPLE_TYPE_INT))
       = Inr (SliceType (SimpleType SIMPLE_TYPE_INT))
   \<and> Negotiate (SliceType (SimpleType SIMPLE_TYPE_INT)) UnknownType
       = Inr (SliceType (SimpleType SIMPLE_TYPE_INT))"
proof -
  have k: "Known (SliceType (SimpleType SIMPLE_TYPE_INT))" by simp
  show ?thesis using k Negotiate_Unknown [OF k] by simp
qed

subsection \<open>Root types\<close>

lemma aliasChain_loop:
  "aliasChain h t r \<Longrightarrow> RootType_loop h (Some t) = Some (Inr r) \<and> Kind_of r \<noteq> KIND_CUSTOM"
proof (induction rule: aliasChain.induct)
  case (chain_root r)
  then show ?case by (simp add: RootType_loop.simps)
next
  case (chain_step c a t r)
  then show ?case by (subst RootType_loop.simps) simp
qed

text \<open>
  Claim C7: for every CustomType whose chain of named aliases, followed through
  \<^verbatim>\<open>Decl.AliasedType\<close> and intermediate Custom types, ends after finitely many steps in a type
  that is not Custom, \<^verbatim>\<open>RootType\<close> returns (no panic, and the loop ends) that first non-Custom
  type, whose Kind is not \<^verbatim>\<open>KIND_CUSTOM\<close>.
\<close>

theorem RootType_of_chain:
  assumes "aliasChain h (Custom t) r"
  shows "RootType h t = Some (Inr r) \<and> Kind_of r \<noteq> KIND_CUSTOM"
  using assms
proof (cases rule: aliasChain.cases)
  case chain_root
  then show ?thesis by simp
next
  case (chain_step a t')
  then show ?thesis using aliasChain_loop [of h t' r] by (simp add: RootType_def)
qed

theorem RootType_of_chain_witness:
  "aliasChain exampleDecls (Custom typeA) (SimpleType SIMPLE_TYPE_INT)
   \<and> RootType exampleDecls typeA = Some (Inr (SimpleType SIMPLE_TYPE_INT))
   \<and> Kind_of (SimpleType SIMPLE_TYPE_INT) \<noteq> KIND_CUSTOM"
proof -
  have "aliasChain exampleDecls (SimpleType SIMPLE_TYPE_INT) (SimpleType SIMPLE_TYPE_INT)"
    by (rule chain_root) simp
  then have "aliasChain exampleDecls (Custom (CustomType ''B'' [] (Some 1)))
               (SimpleType SIMPLE_TYPE_INT)"
    using chain_step [of "CustomType ''B'' [] (Some 1)" 1 exampleDecls "SimpleType SIMPLE_TYPE_INT"]
    by (simp add: exampleDecls_def)
  then have c: "aliasChain exampleDecls (Custom typeA) (SimpleType SIMPLE_TYPE_INT)"
    using chain_step [of typeA 0 exampleDecls "Custom (CustomType ''B'' [] (Some 1))"]
    by (simp add: exampleDecls_def typeA_def)
  show ?thesis using c RootType_of_chain [OF c] by simp
qed

text \<open>
  Outside that hypothesis the code has no guard. A declaration that is not an alias ends
  the chain in nil and \<^verbatim>\<open>RootType\<close> panics; a chain that comes back to itself keeps the loop
  running and \<^verbatim>\<open>RootType\<close> does not return.
\<close>

lemma RootType_not_alias:
  "AliasedType (h a) = None \<Longrightarrow> RootType h (CustomType n p (Some a)) = Some (Inl NilDereference)"
  by (simp add: RootType_def RootType_loop.simps)

lemma RootType_loop_cycle:
  assumes "RootType_loop h cur = Some y"
  shows "h = loopDecls \<longrightarrow> (\<forall>c a. cur = Some (Custom c) \<longrightarrow> Decl c = Some a \<longrightarrow> False)"
  using assms
proof (induction rule: RootType_loop.raw_induct [rotated -1, consumes 1, case_names step])
  case (step f h cur y)
  show ?case
  proof (intro impI allI)
    fix c a
    assume h: "h = loopDecls" and cur: "cur = Some (Custom c)" and d: "Decl c = Some a"
    with step(2) have "f loopDecls (Some (Custom (CustomType ''L'' [] (Some a)))) = Some y"
      by (simp add: loopDecls_def)
    from step(1) [OF this] show False by simp
  qed
qed

lemma RootType_cycle: "RootType loopDecls (CustomType ''L'' [] (Some 0)) = None"
proof (cases "RootType loopDecls (CustomType ''L'' [] (Some 0))")
  case None
  then show ?thesis .
next
  case (Some y)
  then have "RootType_loop loopDecls (Some (Custom (CustomType ''L'' [] (Some 0)))) = Some y"
    by (simp add: RootType_def loopDecls_def)
  from RootType_loop_cycle [OF this] show ?thesis by simp
qed

section \<open>Properties of code blocks\<close>

text \<open>
  Claim C6: for every CodeBlock, \<^verbatim>\<open>AddLabel(l)\<close> returns an error if and only if a label with
  l's name is already present in the block's label map; on error the block is unchanged,
  and on success the map afterwards is the old map with l's name mapped to l, nothing else
  added, removed or changed. A block whose map holds no label of that name and is not nil
  does succeed. (On a nil map the assignment panics: no error is returned, and nothing
  succeeds.)
\<close>

theorem AddLabel_spec:
  "((\<exists>e cb'. AddLabel cb l = Inr (Some e, cb'))
      \<longleftrightarrow> (\<exists>m x. Labels cb = Some m \<and> m (label_name l) = Some x))
   \<and> (\<forall>e cb'. AddLabel cb l = Inr (Some e, cb') \<longrightarrow> cb' = cb)
   \<and> (\<forall>cb'. AddLabel cb l = Inr (None, cb') \<longrightarrow>
         (\<exists>m. Labels cb = Some m \<and> m (label_name l) = None
              \<and> Labels cb' = Some (m(label_name l \<mapsto> l))
              \<and> Statements cb' = Statements cb))
   \<and> (\<forall>m. Labels cb = Some m \<and> m (label_name l) = None \<longrightarrow>
         AddLabel cb l = Inr (None, cb\<lparr>Labels := Some (m(label_name l \<mapsto> l))\<rparr>))"
  by (cases "Labels cb") (auto simp: AddLabel_def)

theorem AddLabel_spec_witness:
  "AddLabel blockL labelL = Inr (Some (LabelRedeclared ''L''), blockL)
   \<and> Labels blockL = Some [''L'' \<mapsto> labelL]
   \<and> AddLabel blockL labelM
       = Inr (None, blockL\<lparr>Labels := Some ([''L'' \<mapsto> labelL, ''M'' \<mapsto> labelM])\<rparr>)"
  using AddLabel_spec [of blockL labelL] AddLabel_spec [of blockL labelM]
  by (simp add: blockL_def labelL_def labelM_def AddLabel_def)

section \<open>Properties of the scope stack\<close>

lemma findObject_loop_found:
  "i < k \<Longrightarrow> (is ! i) name = Some v \<Longrightarrow> (\<forall>j. i < j \<and> j < k \<longrightarrow> (is ! j) name = None)
   \<Longrightarrow> findObject_loop is name k = Some v"
proof (induction k)
  case 0
  then show ?case by simp
next
  case (Suc k)
  show ?case
  proof (cases "i = k")
    case True
    with Suc.prems show ?thesis by simp
  next
    case False
    with Suc.prems have "i < k" and "(is ! k) name = None" by auto
    with Suc show ?thesis by simp
  qed
qed

lemma findObject_loop_none:
  "(\<forall>i. i < k \<longrightarrow> (is ! i) name = None) \<Longrightarrow> findObject_loop is name k = None"
  by (induction k) simp_all

lemma findTypeDecl_loop_found:
  "o' < k \<Longrightarrow> (is ! o') name = Some (TypeDeclObj d)
   \<Longrightarrow> (\<forall>j w. o' < j \<and> j < k \<and> (is ! j) name = Some w \<longrightarrow> ObjectType_of w \<noteq> OBJECT_TYPE)
   \<Longrightarrow> findTypeDecl_loop is name k = Inr (Some d)"
proof (induction k)
  case 0
  then show ?case by simp
next
  case (Suc k)
  show ?case
  proof (cases "o' = k")
    case True
    with Suc.prems show ?thesis by simp
  next
    case False
    with Suc.prems have lt: "o' < k" by simp
    from Suc.prems have skip: "\<And>w. (is ! k) name = Some w \<Longrightarrow> ObjectType_of w \<noteq> OBJECT_TYPE"
      using lt by blast
    from Suc.prems(3)
    have "\<forall>j w. o' < j \<and> j < k \<and> (is ! j) name = Some w \<longrightarrow> ObjectType_of w \<noteq> OBJECT_TYPE"
      using less_SucI by blast
    with Suc.IH lt Suc.prems(2) have "findTypeDecl_loop is name k = Inr (Some d)" by blast
    with skip show ?thesis by (cases "(is ! k) name") simp_all
  qed
qed

lemma addObject_pushScope:
  "addObject v (pushScope is) = Inr (is @ [[Name v \<mapsto> v]])"
  by (simp add: addObject_def pushScope_def nth_append)

lemma popScope_snoc: "popScope (is @ [s]) = Inr is"
  by (simp add: popScope_def)

subsection \<open>Lookup order\<close>

text \<open>
  \<^verbatim>\<open>findObject\<close> asks the builtin table before any scope: with the variable \<^verbatim>\<open>int\<close> bound in
  the only scope, the lookup of \<^verbatim>\<open>int\<close> returns the builtin declaration, not the variable.
\<close>

theorem findObject_builtin_first_counterexample:
  "(stackInt ! 0) ''int'' = Some varInt
   \<and> findObject stackInt ''int'' = Some (TypeDeclObj builtinInt)
   \<and> TypeDeclObj builtinInt \<noteq> varInt"
  by (simp add: findObject_def GetBuiltinType_int stackInt_def varInt_def)

text \<open>
  Claim C1, as the code has it: for every IdentStack and every name, \<^verbatim>\<open>findObject\<close> consults
  the builtin-type table first, so the name of a builtin type yields its builtin declaration
  whatever the scopes bind. For any other name the scopes are searched from innermost to
  outermost and the object bound in the innermost scope that binds the name is returned;
  if no scope binds the name and it is not a builtin, nil is returned.
\<close>

theorem findObject_spec:
  "(\<forall>d. GetBuiltinType name = Some d \<longrightarrow> findObject is name = Some (TypeDeclObj d))
   \<and> (GetBuiltinType name = None \<longrightarrow>
        (\<forall>i v. i < length is \<and> (is ! i) name = Some v
               \<and> (\<forall>j. i < j \<and> j < length is \<longrightarrow> (is ! j) name = None)
             \<longrightarrow> findObject is name = Some v)
        \<and> ((\<forall>i. i < length is \<longrightarrow> (is ! i) name = None) \<longrightarrow> findObject is name = None))"
  by (auto simp: findObject_def findObject_loop_found findObject_loop_none)

theorem findObject_spec_witness:
  "GetBuiltinType ''int'' = Some builtinInt
   \<and> findObject stackIntInner ''int'' = Some (TypeDeclObj builtinInt)
   \<and> GetBuiltinType ''x'' = None
   \<and> (stackXInner ! 1) ''x'' = Some innerX
   \<and> findObject stackXInner ''x'' = Some innerX
   \<and> findObject stackIntInner ''x'' = None"
  using findObject_spec [of "''int''" stackIntInner] findObject_spec [of "''x''" stackXInner]
    findObject_spec [of "''x''" stackIntInner] GetBuiltinType_int GetBuiltinType_x
  by (simp add: stackIntInner_def stackXInner_def findObject_def)

subsection \<open>Shadowing\<close>

text \<open>
  With a builtin name the inner object is never seen: after the push and the declaration
  of a second variable \<^verbatim>\<open>int\<close> the lookup does not return it, and after the pop it does not
  return the outer variable either.
\<close>

theorem shadowing_builtin_counterexample:
  "(stackInt ! 0) ''int'' = Some varInt \<and> Name innerInt = ''int''
   \<and> addObject innerInt (pushScope stackInt) = Inr stackIntInner
   \<and> findObject stackIntInner ''int'' \<noteq> Some innerInt
   \<and> popScope stackIntInner = Inr stackInt
   \<and> findObject stackInt ''int'' \<noteq> Some varInt"
  by (simp add: findObject_def GetBuiltinType_int stackInt_def stackIntInner_def varInt_def
      innerInt_def addObject_def pushScope_def popScope_def)

text \<open>
  Claim C5, as the code has it: for every IdentStack, every name that is not the name of a
  builtin type, and every pair of objects with that name: after \<^verbatim>\<open>pushScope\<close> followed by
  \<^verbatim>\<open>addObject\<close> of an object whose name is already bound in an outer scope, \<^verbatim>\<open>findObject\<close> on
  that name returns the inner object; after the matching \<^verbatim>\<open>popScope\<close>, \<^verbatim>\<open>findObject\<close> on that
  name returns the outer object again.
\<close>

theorem scope_shadowing:
  assumes "GetBuiltinType (Name v) = None"
    and "i < length is" and "(is ! i) (Name v) = Some outer"
    and "\<forall>j. i < j \<and> j < length is \<longrightarrow> (is ! j) (Name v) = None"
  shows "\<exists>is2. addObject v (pushScope is) = Inr is2
           \<and> findObject is2 (Name v) = Some v
           \<and> popScope is2 = Inr is \<and> findObject is (Name v) = Some outer"
proof -
  let ?is2 = "is @ [[Name v \<mapsto> v]]"
  have "findObject ?is2 (Name v) = Some v"
    using assms(1) by (simp add: findObject_def)
  moreover have "findObject is (Name v) = Some outer"
    using assms by (simp add: findObject_def findObject_loop_found)
  ultimately show ?thesis
    by (simp add: addObject_pushScope popScope_snoc)
qed

theorem scope_shadowing_witness:
  "GetBuiltinType (Name innerX) = None \<and> (stackX ! 0) (Name innerX) = Some varX
   \<and> addObject innerX (pushScope stackX) = Inr stackXInner
   \<and> findObject stackXInner (Name innerX) = Some innerX
   \<and> popScope stackXInner = Inr stackX
   \<and> findObject stackX (Name innerX) = Some varX"
proof -
  have n: "Name innerX = ''x''" by (simp add: innerX_def)
  have b: "GetBuiltinType (Name innerX) = None" by (simp add: n GetBuiltinType_x)
  have l: "0 < length stackX" by (simp add: stackX_def)
  have o: "(stackX ! 0) (Name innerX) = Some varX" by (simp add: n stackX_def)
  have m: "\<forall>j. 0 < j \<and> j < length stackX \<longrightarrow> (stackX ! j) (Name innerX) = None"
    by (simp add: stackX_def)
  show ?thesis
    using scope_shadowing [OF b l o m] b o
    by (auto simp: addObject_pushScope stackX_def stackXInner_def n)
qed

subsection \<open>Looking up type declarations\<close>

text \<open>
  With a builtin name neither lookup reaches the scopes: \<^verbatim>\<open>findTypeDecl\<close> returns the builtin
  declaration instead of the outer one, and \<^verbatim>\<open>findObject\<close> returns it instead of the inner
  variable.
\<close>

theorem findTypeDecl_builtin_counterexample:
  "(stackDeclVarInt ! 1) ''int'' = Some innerInt \<and> ObjectType_of innerInt = OBJECT_VAR
   \<and> (stackDeclVarInt ! 0) ''int'' = Some (TypeDeclObj declInt)
   \<and> findTypeDecl stackDeclVarInt ''int'' = Inr (Some builtinInt)
   \<and> builtinInt \<noteq> declInt
   \<and> findObject stackDeclVarInt ''int'' = Some (TypeDeclObj builtinInt)
   \<and> TypeDeclObj builtinInt \<noteq> innerInt"
  by (simp add: findObject_def findTypeDecl_def GetBuiltinType_int stackDeclVarInt_def
      innerInt_def declInt_def builtinInt_def)

text \<open>
  Claim C10, as the code has it: for every IdentStack and every name that is not the name
  of a builtin type, \<^verbatim>\<open>findTypeDecl\<close> skips bindings whose object is not a type declaration
  and continues searching outward: if the innermost scope binding the name binds it to a
  non-type object, and an outer scope binds it to a TypeDecl with only non-type bindings
  of the name in between, \<^verbatim>\<open>findTypeDecl\<close> returns the outer TypeDecl, while \<^verbatim>\<open>findObject\<close> on
  the same stack and name returns the inner non-type object.
\<close>

theorem findTypeDecl_skips_non_types:
  assumes "GetBuiltinType name = None"
    and "i < length is" and "(is ! i) name = Some v" and "ObjectType_of v \<noteq> OBJECT_TYPE"
    and "\<forall>j. i < j \<and> j < length is \<longrightarrow> (is ! j) name = None"
    and "o' < i" and "(is ! o') name = Some (TypeDeclObj d)"
    and "\<forall>j w. o' < j \<and> j < i \<and> (is ! j) name = Some w \<longrightarrow> ObjectType_of w \<noteq> OBJECT_TYPE"
  shows "findTypeDecl is name = Inr (Some d) \<and> findObject is name = Some v"
proof -
  have "\<forall>j w. o' < j \<and> j < length is \<and> (is ! j) name = Some w \<longrightarrow> ObjectType_of w \<noteq> OBJECT_TYPE"
  proof (intro allI impI)
    fix j w
    assume a: "o' < j \<and> j < length is \<and> (is ! j) name = Some w"
    show "ObjectType_of w \<noteq> OBJECT_TYPE"
    proof (cases "j < i")
      case True
      with a assms(8) show ?thesis by blast
    next
      case False
      then have "j = i \<or> i < j" by auto
      with a assms(3,4,5) show ?thesis by auto
    qed
  qed
  moreover have "o' < length is" using assms(2,6) by simp
  ultimately have "findTypeDecl_loop is name (length is) = Inr (Some d)"
    using assms(7) by (intro findTypeDecl_loop_found) auto
  moreover have "findObject_loop is name (length is) = Some v"
    using assms(2,3,5) by (intro findObject_loop_found) auto
  ultimately show ?thesis
    using assms(1) by (simp add: findTypeDecl_def findObject_def)
qed

theorem findTypeDecl_skips_non_types_witness:
  "GetBuiltinType ''x'' = None
   \<and> (stackDeclVarX ! 1) ''x'' = Some innerX \<and> ObjectType_of innerX \<noteq> OBJECT_TYPE
   \<and> (stackDeclVarX ! 0) ''x'' = Some (TypeDeclObj declX)
   \<and> findTypeDecl stackDeclVarX ''x'' = Inr (Some declX)
   \<and> findObject stackDeclVarX ''x'' = Some innerX"
proof -
  have l: "1 < length stackDeclVarX" by (simp add: stackDeclVarX_def)
  have i: "(stackDeclVarX ! 1) ''x'' = Some innerX" by (simp add: stackDeclVarX_def)
  have t: "ObjectType_of innerX \<noteq> OBJECT_TYPE" by (simp add: innerX_def)
  have m: "\<forall>j. 1 < j \<and> j < length stackDeclVarX \<longrightarrow> (stackDeclVarX ! j) ''x'' = None"
    by (simp add: stackDeclVarX_def)
  have o: "(stackDeclVarX ! 0) ''x'' = Some (TypeDeclObj declX)" by (simp add: stackDeclVarX_def)
  have s: "\<forall>j w. 0 < j \<and> j < 1 \<and> (stackDeclVarX ! j) ''x'' = Some w
             \<longrightarrow> ObjectType_of w \<noteq> OBJECT_TYPE"
    by simp
  show ?thesis
    using findTypeDecl_skips_non_types [OF GetBuiltinType_x l i t m _ o s] GetBuiltinType_x i t o
    by simp
qed

section \<open>Properties of the ordering of top-level statements\<close>

lemma posOf_append_in: "x \<in> set xs \<Longrightarrow> posOf x (xs @ ys) = posOf x xs"
  by (induction xs) auto

lemma posOf_snoc_new: "x \<notin> set xs \<Longrightarrow> posOf x (xs @ [x]) = length xs"
  by (induction xs) auto

lemma posOf_less_length: "x \<in> set xs \<Longrightarrow> posOf x xs < length xs"
  by (induction xs) auto

lemma occursBefore_snoc_keep: "occursBefore x y xs \<Longrightarrow> occursBefore x y (xs @ [z])"
  by (simp add: occursBefore_def posOf_append_in)

lemma occursBefore_snoc_new:
  "x \<in> set xs \<Longrightarrow> z \<notin> set xs \<Longrightarrow> occursBefore x z (xs @ [z])"
  by (simp add: occursBefore_def posOf_append_in posOf_snoc_new posOf_less_length)

lemma available_iff:
  "available inp out i \<longleftrightarrow> (\<forall>j<length inp. dependsOn (inp ! i) (inp ! j) \<longrightarrow> j \<in> set out)"
  by (auto simp: available_def list_all_iff)

lemma dependsOn_iff:
  "dependsOn a b \<longleftrightarrow> (\<exists>n. unbound a n \<and> n \<in> set (Decls b))"
  by (auto simp: dependsOn_def list_ex_iff)

lemma find_available_Some:
  "find (available inp out) rem = Some i \<Longrightarrow> i \<in> set rem \<and> available inp out i"
  by (auto simp: find_Some_iff)

lemma topoLoop_mset:
  "topoLoop inp out rem = Inr ord \<Longrightarrow> mset ord = mset out + mset rem"
proof (induction inp out rem rule: topoLoop.induct)
  case (1 inp out rem)
  show ?case
  proof (cases "rem = []")
    case True
    with "1.prems" show ?thesis by simp
  next
    case False
    with "1.prems" obtain i where f: "find (available inp out) rem = Some i"
      and r: "topoLoop inp (out @ [i]) (remove1 i rem) = Inr ord"
      by (cases "find (available inp out) rem") auto
    from f have "i \<in> set rem" by (simp add: find_available_Some)
    with "1.IH" [OF False f r] show ?thesis by simp
  qed
qed

lemma topoLoop_order:
  "topoLoop inp out rem = Inr ord \<Longrightarrow> distinct rem \<Longrightarrow> set out \<inter> set rem = {}
   \<Longrightarrow> (\<forall>i\<in>set out. \<forall>j<length inp. dependsOn (inp ! i) (inp ! j) \<longrightarrow> occursBefore j i out)
   \<Longrightarrow> (\<forall>i\<in>set ord. \<forall>j<length inp. dependsOn (inp ! i) (inp ! j) \<longrightarrow> occursBefore j i ord)"
proof (induction inp out rem rule: topoLoop.induct)
  case (1 inp out rem)
  show ?case
  proof (cases "rem = []")
    case True
    with "1.prems" show ?thesis by simp
  next
    case False
    with "1.prems"(1) obtain i where f: "find (available inp out) rem = Some i"
      and r: "topoLoop inp (out @ [i]) (remove1 i rem) = Inr ord"
      by (cases "find (available inp out) rem") auto
    from f have i_rem: "i \<in> set rem" and av: "available inp out i"
      by (simp_all add: find_available_Some)
    from i_rem "1.prems"(3) have i_new: "i \<notin> set out" by auto
    have d: "distinct (remove1 i rem)" using "1.prems"(2) by simp
    have disj: "set (out @ [i]) \<inter> set (remove1 i rem) = {}"
      using "1.prems"(2,3) by auto
    have inv: "\<forall>k\<in>set (out @ [i]). \<forall>j<length inp.
                 dependsOn (inp ! k) (inp ! j) \<longrightarrow> occursBefore j k (out @ [i])"
    proof (intro ballI allI impI)
      fix k j
      assume k: "k \<in> set (out @ [i])" and j: "j < length inp"
        and dep: "dependsOn (inp ! k) (inp ! j)"
      show "occursBefore j k (out @ [i])"
      proof (cases "k = i")
        case True
        with av j dep have "j \<in> set out" by (simp add: available_iff)
        with i_new True show ?thesis by (simp add: occursBefore_snoc_new)
      next
        case False
        with k have "k \<in> set out" by simp
        with "1.prems"(4) j dep have "occursBefore j k out" by blast
        then show ?thesis by (rule occursBefore_snoc_keep)
      qed
    qed
    from "1.IH" [OF False f r d disj inv] show ?thesis .
  qed
qed

lemma finite_depEdges: "finite (depEdges inp)"
proof -
  have "depEdges inp \<subseteq> {0..<length inp} \<times> {0..<length inp}"
    by (auto simp: depEdges_def)
  then show ?thesis by (rule finite_subset) simp
qed

lemma exists_available:
  assumes acyc: "acyclic (depEdges inp)" and ne: "rem \<noteq> []"
    and sub: "set rem \<subseteq> {0..<length inp}"
    and cover: "{0..<length inp} \<subseteq> set out \<union> set rem"
  shows "\<exists>i\<in>set rem. available inp out i"
proof -
  have "wf ((depEdges inp)\<inverse>)"
    using finite_depEdges acyc by (rule finite_acyclic_wf_converse)
  moreover from ne have "hd rem \<in> set rem" by simp
  ultimately obtain z where z: "z \<in> set rem"
    and least: "\<And>y. (y, z) \<in> (depEdges inp)\<inverse> \<Longrightarrow> y \<notin> set rem"
    by (rule wfE_min) blast
  have "available inp out z"
    unfolding available_iff
  proof (intro allI impI)
    fix j
    assume j: "j < length inp" and dep: "dependsOn (inp ! z) (inp ! j)"
    from z sub have "z < length inp" by auto
    with j dep have "(j, z) \<in> (depEdges inp)\<inverse>" by (simp add: depEdges_def)
    then have "j \<notin> set rem" by (rule least)
    with cover j show "j \<in> set out" by auto
  qed
  with z show ?thesis by blast
qed

lemma topoLoop_succeeds:
  "acyclic (depEdges inp) \<Longrightarrow> set rem \<subseteq> {0..<length inp}
   \<Longrightarrow> {0..<length inp} \<subseteq> set out \<union> set rem
   \<Longrightarrow> \<exists>ord. topoLoop inp out rem = Inr ord"
proof (induction inp out rem rule: topoLoop.induct)
  case (1 inp out rem)
  show ?case
  proof (cases "rem = []")
    case True
    then show ?thesis by simp
  next
    case False
    from exists_available [OF "1.prems"(1) False "1.prems"(2,3)]
    obtain i where f: "find (available inp out) rem = Some i"
      by (cases "find (available inp out) rem") (auto simp: find_None_iff)
    then have i_rem: "i \<in> set rem" by (simp add: find_available_Some)
    have sub: "set (remove1 i rem) \<subseteq> {0..<length inp}"
      using "1.prems"(2) set_remove1_subset [of i rem] by blast
    have cover: "{0..<length inp} \<subseteq> set (out @ [i]) \<union> set (remove1 i rem)"
    proof
      fix x
      assume "x \<in> {0..<length inp}"
      with "1.prems"(3) have "x \<in> set out \<or> x \<in> set rem" by auto
      then show "x \<in> set (out @ [i]) \<union> set (remove1 i rem)"
        by (cases "x = i") (auto simp: in_set_remove1)
    qed
    from "1.IH" [OF False f "1.prems"(1) sub cover] f False show ?thesis by simp
  qed
qed

lemma topoLoop_error:
  "topoLoop inp out rem = Inl e \<Longrightarrow> \<exists>ns. e = DependencyCycle ns"
proof (induction inp out rem rule: topoLoop.induct)
  case (1 inp out rem)
  show ?case
  proof (cases "rem = []")
    case True
    with "1.prems" show ?thesis by simp
  next
    case False
    show ?thesis
    proof (cases "find (available inp out) rem")
      case None
      with False "1.prems" show ?thesis by auto
    next
      case (Some i)
      with False "1.prems" "1.IH" show ?thesis by simp
    qed
  qed
qed

lemma topoOrder_sound:
  assumes "topoOrder inp = Inr ord"
  shows "mset ord = mset [0..<length inp]"
    and "\<forall>s d. s < length inp \<and> d < length inp \<and> dependsOn (inp ! s) (inp ! d)
               \<longrightarrow> occursBefore d s ord"
proof -
  from assms have r: "topoLoop inp [] [0..<length inp] = Inr ord"
    by (simp add: topoOrder_def)
  from topoLoop_mset [OF r] show m: "mset ord = mset [0..<length inp]" by simp
  then have "set ord = {0..<length inp}" by (metis mset_eq_setD set_upt)
  moreover have "\<forall>i\<in>set ord. \<forall>j<length inp.
      dependsOn (inp ! i) (inp ! j) \<longrightarrow> occursBefore j i ord"
    by (rule topoLoop_order [OF r]) simp_all
  ultimately show "\<forall>s d. s < length inp \<and> d < length inp \<and> dependsOn (inp ! s) (inp ! d)
               \<longrightarrow> occursBefore d s ord"
    by auto
qed

lemma topoOrder_Inr_acyclic:
  assumes "topoOrder inp = Inr ord"
  shows "acyclic (depEdges inp)"
proof (rule acyclicI_order [where f = "\<lambda>i. posOf i ord"])
  fix a b
  assume "(a, b) \<in> depEdges inp"
  with topoOrder_sound(2) [OF assms] have "occursBefore b a ord"
    by (simp add: depEdges_def)
  then show "posOf b ord < posOf a ord" by (simp add: occursBefore_def)
qed

lemma mset_map_nth_perm:
  assumes "mset ord = mset [0..<length inp]"
  shows "mset (map (\<lambda>i. inp ! i) ord) = mset inp"
proof -
  have "mset (map (\<lambda>i. inp ! i) ord) = image_mset (\<lambda>i. inp ! i) (mset ord)" by simp
  also have "\<dots> = image_mset (\<lambda>i. inp ! i) (mset [0..<length inp])" using assms by simp
  also have "\<dots> = mset (map (\<lambda>i. inp ! i) [0..<length inp])" by simp
  also have "\<dots> = mset inp" by (simp add: map_nth)
  finally show ?thesis .
qed

text \<open>
  Claim C3: for every set of TopLevelStmts whose declare/depend edges are acyclic,
  \<^verbatim>\<open>topoSort\<close> succeeds and returns an ordering that is a permutation of the input of equal
  length, and for every pair of statements (D, S) such that S's unbound identifier set
  intersects D's declared set, D occurs before S in the output. Statements are told apart
  by their position in the input; \<open>ord\<close> lists the input positions in output order.
\<close>

theorem topoSort_acyclic:
  assumes "acyclic (depEdges inp)"
  shows "\<exists>ord out. topoOrder inp = Inr ord \<and> topoSort inp = Inr out
           \<and> out = map (\<lambda>i. inp ! i) ord
           \<and> mset ord = mset [0..<length inp]
           \<and> mset out = mset inp \<and> length out = length inp
           \<and> (\<forall>d s. d < length inp \<and> s < length inp
                   \<and> (\<exists>n. unbound (inp ! s) n \<and> n \<in> set (Decls (inp ! d)))
                 \<longrightarrow> occursBefore d s ord)"
proof -
  from topoLoop_succeeds [of inp "[0..<length inp]" "[]"] assms
  obtain ord where o: "topoOrder inp = Inr ord"
    by (auto simp: topoOrder_def)
  note m = topoOrder_sound(1) [OF o]
  have p: "mset (map (\<lambda>i. inp ! i) ord) = mset inp" using m by (rule mset_map_nth_perm)
  have l: "length (map (\<lambda>i. inp ! i) ord) = length inp"
    using p by (metis mset_eq_length)
  have b: "\<forall>d s. d < length inp \<and> s < length inp
                   \<and> (\<exists>n. unbound (inp ! s) n \<and> n \<in> set (Decls (inp ! d)))
                 \<longrightarrow> occursBefore d s ord"
    using topoOrder_sound(2) [OF o] by (simp add: dependsOn_iff)
  from o m p l b show ?thesis by (simp add: topoSort_def)
qed

text \<open>
  Claim C4: for every set of TopLevelStmts whose declare/depend edges contain a cycle
  (direct or indirect, through one or many intermediate names), \<^verbatim>\<open>topoSort\<close> returns an
  error, the dependency-cycle error, and with it no ordering at all, partial or other.
\<close>

theorem topoSort_cyclic:
  assumes "\<not> acyclic (depEdges inp)"
  shows "\<exists>ns. topoOrder inp = Inl (DependencyCycle ns) \<and> topoSort inp = Inl (DependencyCycle ns)"
proof (cases "topoOrder inp")
  case (Inl e)
  then have "topoLoop inp [] [0..<length inp] = Inl e" by (simp add: topoOrder_def)
  then obtain ns where "e = DependencyCycle ns" using topoLoop_error by blast
  with Inl show ?thesis by (simp add: topoSort_def)
next
  case (Inr ord)
  then have "acyclic (depEdges inp)" by (rule topoOrder_Inr_acyclic)
  with assms show ?thesis by simp
qed


lemma unbound_testNode:
  "unbound (testNode p ds deps) n \<longleftrightarrow> n \<in> set deps \<and> n \<notin> set ds"
proof -
  have "(fold (\<lambda>dep m. m(dep \<mapsto> None)) deps m) n = None \<longleftrightarrow> n \<notin> set deps \<and> m n = None"
    for m :: "string \<rightharpoonup> addr option"
    by (induction deps arbitrary: m) auto
  then show ?thesis by (simp add: unbound_def testNode_def)
qed

lemma Decls_testNode: "Decls (testNode p ds deps) = ds"
  by (simp add: testNode_def)

lemma dependsOn_testNode:
  "dependsOn (testNode p ds deps) (testNode p' ds' deps')
     \<longleftrightarrow> (\<exists>n\<in>set ds'. n \<in> set deps \<and> n \<notin> set ds)"
  by (auto simp: dependsOn_def list_ex_iff unbound_testNode Decls_testNode)

lemma depEdges_chainStmts_increasing:
  assumes "(a, b) \<in> depEdges chainStmts"
  shows "a < b"
proof -
  from assms have "a < 3" and "b < 3" and dep: "dependsOn (chainStmts ! a) (chainStmts ! b)"
    by (simp_all add: depEdges_def chainStmts_def)
  then have "a \<in> {0, 1, 2}" and "b \<in> {0, 1, 2}" by auto
  with dep show ?thesis
    by (auto simp: chainStmts_def dependsOn_testNode)
qed

lemma acyclic_chainStmts: "acyclic (depEdges chainStmts)"
proof (rule acyclicI_order [where f = "\<lambda>i. 3 - i"])
  fix a b :: nat
  assume e: "(a, b) \<in> depEdges chainStmts"
  then have "a < b" by (rule depEdges_chainStmts_increasing)
  moreover from e have "b < 3" by (simp add: depEdges_def chainStmts_def)
  ultimately show "3 - b < 3 - a" by simp
qed

lemma topoOrder_chainStmts: "topoOrder chainStmts = Inr [2, 1, 0]"
  by (simp add: topoOrder_def chainStmts_def available_def dependsOn_testNode
      upt_conv_Cons)

theorem topoSort_acyclic_witness:
  "acyclic (depEdges chainStmts)
   \<and> topoOrder chainStmts = Inr [2, 1, 0]
   \<and> topoSort chainStmts = Inr [chainStmts ! 2, chainStmts ! 1, chainStmts ! 0]
   \<and> occursBefore (1::nat) 0 [2, 1, 0] \<and> occursBefore (2::nat) 1 [2, 1, 0]"
  using topoSort_acyclic [OF acyclic_chainStmts] acyclic_chainStmts topoOrder_chainStmts
  by (auto simp: occursBefore_def)

lemma cycle_cycleStmts: "(0, 0) \<in> (depEdges cycleStmts)\<^sup>+"
proof -
  have "(0, 1) \<in> depEdges cycleStmts" "(1, 2) \<in> depEdges cycleStmts"
    "(2, 0) \<in> depEdges cycleStmts"
    by (simp_all add: depEdges_def cycleStmts_def dependsOn_testNode)
  then show ?thesis by (meson trancl.simps)
qed

theorem topoSort_cyclic_witness:
  "\<not> acyclic (depEdges cycleStmts)
   \<and> topoOrder cycleStmts = Inl (DependencyCycle [''a'', ''b'', ''c''])
   \<and> topoSort cycleStmts = Inl (DependencyCycle [''a'', ''b'', ''c''])"
proof -
  have c: "\<not> acyclic (depEdges cycleStmts)"
    using cycle_cycleStmts by (auto simp: acyclic_def)
  have e: "topoOrder cycleStmts = Inl (DependencyCycle [''a'', ''b'', ''c''])"
    by (simp add: topoOrder_def cycleStmts_def available_def dependsOn_testNode
      upt_conv_Cons Decls_testNode)
  show ?thesis using topoSort_cyclic [OF c] c e by auto
qed

text \<open>
  The model on the remaining inputs of \<^verbatim>\<open>TestStmtsSort\<close>, whose goals name the statements
  \<^verbatim>\<open>1\<close>, \<^verbatim>\<open>2\<close>, \<^verbatim>\<open>3\<close> at the positions 0, 1, 2, and on a self-reference.
\<close>

lemma topoOrder_test_cases:
  "topoOrder forwardStmts = Inr [0, 1, 2]"
  "topoOrder fanStmts = Inr [0, 1, 2]"
  "topoOrder twoNameStmts = Inr [0, 1, 2]"
  "topoOrder twoNameCycleStmts = Inl (DependencyCycle [''a'', ''aa'', ''b'', ''c''])"
  "topoOrder selfStmts = Inr [0]"
  by (simp_all add: topoOrder_def forwardStmts_def fanStmts_def twoNameStmts_def
      twoNameCycleStmts_def selfStmts_def available_def dependsOn_testNode upt_conv_Cons
      Decls_testNode)

end
